theory Spec2Isabelle
  imports Main "HOL-Library.Sublist" "HOL-Library.AList"
begin

section \<open>Exceptions\<close>

text \<open>
  The exceptions the script can raise in the parts modelled here. \<open>SystemExit n\<close> is
  \<open>sys.exit(n)\<close>; \<open>OSError\<close> stands for the errors of the file system
  (\<open>FileExistsError\<close>, \<open>IsADirectoryError\<close> and the like). A function that can raise returns \<open>py_error + 'a\<close>; a loop that
  mutates objects in place returns the objects as they are when it stops, together with
  the exception that stopped it, if any.
\<close>

datatype py_error =
  KeyError | IndexError | AttributeError | TypeError | OSError | SystemExit nat

section \<open>Strings\<close>

text \<open>
  Python strings are modelled as \<open>string\<close>. The string operations the script relies
  on are the substring test \<open>old in s\<close>, \<open>s.replace(old, new)\<close>, \<open>s.split(sep)\<close>
  and \<open>s.rsplit(c, maxsplit=1)\<close>; the first three scan from the left and consume
  non-overlapping occurrences.
\<close>

fun contains :: "string \<Rightarrow> string \<Rightarrow> bool" where
  "contains [] old = (old = [])"
| "contains (c # cs) old = (prefix old (c # cs) \<or> contains cs old)"

function replace_str :: "string \<Rightarrow> string \<Rightarrow> string \<Rightarrow> string" where
  "replace_str [] old new = (if old = [] then new else [])"
| "replace_str (c # cs) old new =
     (if old = [] then new @ c # replace_str cs old new
      else if prefix old (c # cs) then new @ replace_str (drop (length old) (c # cs)) old new
      else c # replace_str cs old new)"
  by pat_completeness auto
termination
  by (relation "measure (\<lambda>(s, old, new). length s)") auto

text \<open>
  \<open>split_from cur s sep\<close> is \<open>s.split(sep)\<close> with \<open>cur\<close> the part read since the
  last separator. The only separator the script uses is the literal \<open>key=\<close>.
\<close>

function split_from :: "string \<Rightarrow> string \<Rightarrow> string \<Rightarrow> string list" where
  "split_from cur [] sep = [cur]"
| "split_from cur (c # cs) sep =
     (if sep \<noteq> [] \<and> prefix sep (c # cs)
      then cur # split_from [] (drop (length sep) (c # cs)) sep
      else split_from (cur @ [c]) cs sep)"
  by pat_completeness auto
termination
  by (relation "measure (\<lambda>(cur, s, sep). length s)") auto

definition split_str :: "string \<Rightarrow> string \<Rightarrow> string list" where
  "split_str s sep = split_from [] s sep"

text \<open>\<open>rsplit_head c s\<close> is \<open>s.rsplit(c, maxsplit=1)[0]\<close> for a one-character \<open>c\<close>.\<close>

definition rsplit_head :: "char \<Rightarrow> string \<Rightarrow> string" where
  "rsplit_head c s =
     (if c \<in> set s then rev (drop 1 (dropWhile (\<lambda>x. x \<noteq> c) (rev s))) else s)"

text \<open>
  \<open>last_occurrence s pat\<close> is the greatest index at which \<open>pat\<close> occurs in \<open>s\<close>
  (Python's \<open>s.rfind(pat)\<close>, with \<open>None\<close> for \<open>-1\<close>).
\<close>

fun last_occurrence :: "string \<Rightarrow> string \<Rightarrow> nat option" where
  "last_occurrence [] pat = (if pat = [] then Some 0 else None)"
| "last_occurrence (c # cs) pat =
     (case last_occurrence cs pat of
        Some i \<Rightarrow> Some (Suc i)
      | None \<Rightarrow> if prefix pat (c # cs) then Some 0 else None)"

section \<open>Template substitution\<close>

text \<open>
  \<open>replace_in_template\<close> walks the items of the replacement dictionary in insertion
  order and replaces the token of each key in the text obtained so far. The dictionary is
  an association list in insertion order.
\<close>

definition token :: "string \<Rightarrow> string" where
  "token k = ''{{'' @ k @ ''}}''"

fun replace_in_template :: "string \<Rightarrow> (string \<times> string) list \<Rightarrow> string" where
  "replace_in_template template_str [] = template_str"
| "replace_in_template template_str ((k, v) # dict_replace) =
     replace_in_template (replace_str template_str (token k) v) dict_replace"

section \<open>Assembling the topic tree\<close>

datatype topic =
  Topic (nodeId: string) (label: string) (linkTarget: string) (children: "topic list")

record link_state =
  target :: "string option"

type_synonym refmap = "string \<rightharpoonup> link_state"

text \<open>
  The answer of the topic endpoint for a content key: either \<open>raise_for_status\<close>
  raises \<open>HTTPError\<close>, or the JSON body carries \<open>bodyHtml\<close> and \<open>linkState\<close>.
\<close>

datatype response = HTTPError | Ok string refmap

type_synonym session = "string \<Rightarrow> response"

record templates =
  index :: string
  topic_w_children :: string
  topic_wo_children :: string
  toc_w_children :: string
  toc_wo_children :: string

type_synonym rendered = "string \<times> string \<times> refmap"

text \<open>
  \<open>re.match(r'<html[^>]*>(.*)</html>', content, re.DOTALL)\<close>: the text must start
  with \<open><html\<close>; \<open>[^>]*\<close> runs to the first \<open>>\<close>; the greedy group runs to the
  last \<open></html>\<close> after it. The result is group 1, or \<open>None\<close> when there is no
  match.
\<close>

definition match_html :: "string \<Rightarrow> string option" where
  "match_html content =
     (if prefix ''<html'' content then
        (case dropWhile (\<lambda>c. c \<noteq> CHR ''>'') (drop 5 content) of
           [] \<Rightarrow> None
         | _ # inner \<Rightarrow>
             (case last_occurrence inner ''</html>'' of
                None \<Rightarrow> None
              | Some i \<Rightarrow> Some (take i inner)))
      else None)"

text \<open>The \<open>try\<close> block of a leaf: the content and the link map it leaves behind.\<close>

definition leaf_content :: "session \<Rightarrow> bool \<Rightarrow> string \<Rightarrow> py_error + (string \<times> refmap)" where
  "leaf_content session crash_on_error key =
     (case session key of
        HTTPError \<Rightarrow>
          if crash_on_error then Inl (SystemExit 1) else Inr (''<div></div>'', Map.empty)
      | Ok bodyHtml linkState \<Rightarrow>
          if contains bodyHtml ''</html>'' then
            (case match_html bodyHtml of
               None \<Rightarrow> Inl AttributeError
             | Some inner \<Rightarrow> Inr (inner, linkState))
          else Inr (bodyHtml, linkState))"

text \<open>
  \<open>build_dom\<close>, with the global \<open>toc_position\<close> as its first argument.
  \<open>build_children\<close> is the loop over \<open>topic['children']\<close>; its last argument holds
  the three accumulators, and \<open>level\<close> is the level its calls of \<open>build_dom\<close> get.
\<close>

fun build_dom :: "string \<Rightarrow> session \<Rightarrow> templates \<Rightarrow> bool \<Rightarrow> topic \<Rightarrow> nat \<Rightarrow> py_error + rendered"
and build_children ::
  "string \<Rightarrow> session \<Rightarrow> templates \<Rightarrow> bool \<Rightarrow> topic list \<Rightarrow> nat \<Rightarrow> rendered \<Rightarrow> py_error + rendered"
where
  "build_dom toc_position session tpl crash_on_error (Topic nid lbl lnk cs) level =
     (if length cs > 0 then
        (case build_children toc_position session tpl crash_on_error cs (level + 1)
                ('''', '''', Map.empty) of
           Inl e \<Rightarrow> Inl e
         | Inr (html_body_children, html_toc_children, html_href_children) \<Rightarrow>
             let repl = [(''TOPIC_ID'', nid), (''TOPIC_TITLE'', lbl),
                         (''TOPIC_CHILDREN'', html_body_children),
                         (''TOC_CHILDREN'', html_toc_children)];
                 html_body = replace_in_template (topic_w_children tpl) repl;
                 html_toc =
                   (if toc_position = ''header'' \<and> level > 0
                    then replace_in_template (toc_wo_children tpl)
                           (repl @ [(''TOPIC_LINK'', ''title'' @ nid)])
                    else replace_in_template (toc_w_children tpl) repl)
             in Inr (html_body, html_toc, html_href_children))
      else
        (case (if lnk \<noteq> [] then leaf_content session crash_on_error lnk
               else Inr ([], Map.empty)) of
           Inl e \<Rightarrow> Inl e
         | Inr (content, html_href) \<Rightarrow>
             let repl = [(''TOPIC_ID'', nid), (''TOPIC_LINK'', lnk), (''TOPIC_TITLE'', lbl),
                         (''TOPIC_CONTENT'', content)]
             in Inr (replace_in_template (topic_wo_children tpl) repl,
                     replace_in_template (toc_wo_children tpl) repl,
                     html_href)))"
| "build_children toc_position session tpl crash_on_error [] level acc = Inr acc"
| "build_children toc_position session tpl crash_on_error (child # rest) level acc =
     (case build_dom toc_position session tpl crash_on_error child level of
        Inl e \<Rightarrow> Inl e
      | Inr (body_child, toc_child, href_child) \<Rightarrow>
          (case acc of (body_acc, toc_acc, href_acc) \<Rightarrow>
             build_children toc_position session tpl crash_on_error rest level
               (body_acc @ body_child, toc_acc @ toc_child, href_acc ++ href_child)))"

text \<open>The top-level loop over the sections of the user guide.\<close>

definition assemble ::
  "string \<Rightarrow> session \<Rightarrow> templates \<Rightarrow> bool \<Rightarrow> topic list \<Rightarrow> py_error + rendered" where
  "assemble toc_position session tpl crash_on_error ug_json =
     build_children toc_position session tpl crash_on_error ug_json 0 ([], [], Map.empty)"

section \<open>Rewriting the links\<close>

text \<open>
  An element of the parsed document: its tag name and its attribute dictionary. An
  attribute value is a string, a list of strings (the parser keeps \<open>class\<close> as a list)
  or \<open>None\<close> (which only an assignment of the script can store). The passes below
  select elements by tag, class and attribute, so the document is the list of its
  elements in document order.
\<close>

datatype attr_value = AStr string | AList "string list" | ANone

record element =
  name :: string
  attrs :: "string \<rightharpoonup> attr_value"

definition set_attr :: "string \<Rightarrow> attr_value \<Rightarrow> element \<Rightarrow> element" where
  "set_attr k v a = a\<lparr>attrs := (attrs a)(k \<mapsto> v)\<rparr>"

text \<open>\<open>del a.attrs[k]\<close>: the element afterwards, and \<open>KeyError\<close> when the key is missing.\<close>

definition del_attr :: "string \<Rightarrow> element \<Rightarrow> element \<times> py_error option" where
  "del_attr k a =
     (if attrs a k = None then (a, Some KeyError)
      else (a\<lparr>attrs := (attrs a)(k := None)\<rparr>, None))"

text \<open>The selector \<open>a[href^="#"]\<close>.\<close>

definition is_fragment_link :: "element \<Rightarrow> bool" where
  "is_fragment_link a =
     (name a = ''a'' \<and>
      (case attrs a ''href'' of Some (AStr h) \<Rightarrow> prefix ''#'' h | _ \<Rightarrow> False))"

text \<open>The selector \<open>a.dynamic-link\<close>.\<close>

definition is_dynamic_link :: "element \<Rightarrow> bool" where
  "is_dynamic_link a =
     (name a = ''a'' \<and>
      (case attrs a ''class'' of Some (AList cs) \<Rightarrow> ''dynamic-link'' \<in> set cs | _ \<Rightarrow> False))"

text \<open>The body of the loop over the links pointing to a figure.\<close>

definition rewrite_fragment :: "element \<Rightarrow> element" where
  "rewrite_fragment a =
     (case attrs a ''href'' of
        Some (AStr h) \<Rightarrow> set_attr ''href'' (AStr ''#'') (set_attr ''data-goto'' (AStr (drop 1 h)) a)
      | _ \<Rightarrow> a)"

definition fragment_pass :: "string \<Rightarrow> element list \<Rightarrow> element list" where
  "fragment_pass extend_mode soup =
     (if extend_mode \<noteq> ''all''
      then map (\<lambda>a. if is_fragment_link a then rewrite_fragment a else a) soup
      else soup)"

text \<open>
  The body of the loop over the links pointing to another topic, up to the two
  deletions. \<open>a['id']\<close> raises \<open>KeyError\<close> when the anchor has no id; a list cannot be
  a dictionary key (\<open>TypeError\<close>); \<open>None\<close> is a key no reference map has.

  For a null target the script assigns \<open>None\<close> to \<open>data-goto\<close>. What the attribute
  dictionary holds after such an assignment is decided by the parser library, of which
  the script fixes no version: \<open>None\<close> itself (\<open>ANone\<close>) where the library stores the
  value as it is given, the empty string where it converts it. That value is the
  parameter \<open>null_value\<close>.
\<close>

definition set_link ::
  "attr_value \<Rightarrow> string \<Rightarrow> refmap \<Rightarrow> element \<Rightarrow> element \<times> py_error option" where
  "set_link null_value extend_mode href_content a =
     (let a1 = set_attr ''href'' (AStr ''#'') a in
      if extend_mode = ''all'' then
        (case attrs a1 ''id'' of
           None \<Rightarrow> (a1, Some KeyError)
         | Some (AList _) \<Rightarrow> (a1, Some TypeError)
         | Some ANone \<Rightarrow> (a1, None)
         | Some (AStr i) \<Rightarrow>
             (case href_content i of
                None \<Rightarrow> (a1, None)
              | Some entry \<Rightarrow>
                  (case target entry of
                     None \<Rightarrow> (a1, None)
                   | Some t \<Rightarrow> (set_attr ''href'' (AStr (''#'' @ t)) a1, None))))
      else
        (case attrs a1 ''id'' of
           None \<Rightarrow> (a1, Some KeyError)
         | Some (AList _) \<Rightarrow> (a1, Some TypeError)
         | Some ANone \<Rightarrow> (a1, Some KeyError)
         | Some (AStr i) \<Rightarrow>
             (case href_content i of
                None \<Rightarrow> (a1, Some KeyError)
              | Some entry \<Rightarrow>
                  (set_attr ''data-goto''
                     (case target entry of None \<Rightarrow> null_value | Some t \<Rightarrow> AStr t) a1,
                   None))))"

definition rewrite_dynamic ::
  "attr_value \<Rightarrow> string \<Rightarrow> refmap \<Rightarrow> element \<Rightarrow> element \<times> py_error option" where
  "rewrite_dynamic null_value extend_mode href_content a =
     (case set_link null_value extend_mode href_content a of
        (a2, Some e) \<Rightarrow> (a2, Some e)
      | (a2, None) \<Rightarrow>
          (case del_attr ''checked-link'' a2 of
             (a3, Some e) \<Rightarrow> (a3, Some e)
           | (a3, None) \<Rightarrow> del_attr ''data-facets'' a3))"

fun dynamic_pass ::
  "attr_value \<Rightarrow> string \<Rightarrow> refmap \<Rightarrow> element list \<Rightarrow> element list \<times> py_error option" where
  "dynamic_pass null_value extend_mode href_content [] = ([], None)"
| "dynamic_pass null_value extend_mode href_content (a # soup) =
     (if is_dynamic_link a then
        (case rewrite_dynamic null_value extend_mode href_content a of
           (a', Some e) \<Rightarrow> (a' # soup, Some e)
         | (a', None) \<Rightarrow>
             (case dynamic_pass null_value extend_mode href_content soup of
                (soup', r) \<Rightarrow> (a' # soup', r)))
      else
        (case dynamic_pass null_value extend_mode href_content soup of
           (soup', r) \<Rightarrow> (a # soup', r)))"

definition update_links ::
  "attr_value \<Rightarrow> string \<Rightarrow> refmap \<Rightarrow> element list \<Rightarrow> element list \<times> py_error option" where
  "update_links null_value extend_mode href_content soup =
     dynamic_pass null_value extend_mode href_content (fragment_pass extend_mode soup)"

section \<open>The resources of the style sheets\<close>

text \<open>
  \<open>re.findall(r"url\(([^()]+)\)", css_text)\<close>: at each position, \<open>url(\<close>, then
  the longest run of characters other than parentheses, which must be non-empty and
  followed by \<open>)\<close>; the search resumes after a match, or one character further.
\<close>

definition not_paren :: "char \<Rightarrow> bool" where
  "not_paren c = (c \<noteq> CHR ''('' \<and> c \<noteq> CHR '')'')"

function find_urls :: "string \<Rightarrow> string list" where
  "find_urls [] = []"
| "find_urls (c # cs) =
     (if prefix ''url('' (c # cs) \<and> takeWhile not_paren (drop 4 (c # cs)) \<noteq> [] \<and>
         prefix '')'' (dropWhile not_paren (drop 4 (c # cs)))
      then takeWhile not_paren (drop 4 (c # cs)) #
           find_urls (drop 1 (dropWhile not_paren (drop 4 (c # cs))))
      else find_urls cs)"
  by pat_completeness auto
termination
proof (relation "measure length")
  show "wf (measure length)" by simp
next
  fix c :: char and cs :: string
  have "length (dropWhile not_paren (drop 4 (c # cs))) \<le> length (drop 4 (c # cs))"
    by (rule length_dropWhile_le)
  then show "(drop 1 (dropWhile not_paren (drop 4 (c # cs))), c # cs) \<in> measure length"
    by simp
next
  fix c :: char and cs :: string
  show "(cs, c # cs) \<in> measure length" by simp
qed

definition normalize_ref :: "string \<Rightarrow> string" where
  "normalize_ref rel_path = rsplit_head CHR ''?'' (rsplit_head CHR ''#'' rel_path)"

text \<open>
  One reference of a style sheet: the key and the value it stores in \<open>css_resources\<close>,
  or nothing for a \<open>data:\<close> reference.
\<close>

definition css_entry :: "string \<Rightarrow> string \<Rightarrow> (string \<times> string) option" where
  "css_entry css_online_dir rel_path =
     (if \<not> prefix ''data:'' rel_path
      then Some (normalize_ref rel_path, css_online_dir @ ''/'' @ normalize_ref rel_path)
      else None)"

text \<open>
  \<open>css_resources\<close> is a dictionary read in insertion order afterwards, so it is an
  association list and an assignment is \<open>AList.update\<close>.
\<close>

fun scan_refs :: "string \<Rightarrow> string list \<Rightarrow> (string \<times> string) list \<Rightarrow> (string \<times> string) list" where
  "scan_refs css_online_dir [] css_resources = css_resources"
| "scan_refs css_online_dir (rel_path # rest) css_resources =
     scan_refs css_online_dir rest
       (case css_entry css_online_dir rel_path of
          None \<Rightarrow> css_resources
        | Some (k, v) \<Rightarrow> AList.update k v css_resources)"

text \<open>
  One style sheet, given by the \<open>href\<close> of its link element and by its text. Its URL
  is the host followed by the \<open>href\<close>, so it always holds a \<open>/\<close>, and
  \<open>css_online_dir\<close> is what stands before the last one.
\<close>

definition scan_stylesheet ::
  "string \<Rightarrow> string \<Rightarrow> (string \<times> string) list \<Rightarrow> (string \<times> string) list" where
  "scan_stylesheet href css_text css_resources =
     scan_refs (rsplit_head CHR ''/'' (''https://userguide.volkswagen.de'' @ href))
       (find_urls css_text) css_resources"

section \<open>Downloading the resources\<close>

text \<open>
  The output folder is the set of the paths that are files, together with the log of the
  retrievals made, as (URL, local path). Paths are of a type \<open>'p\<close>, and \<open>joinp\<close> is
  the \<open>/\<close> of \<open>pathlib\<close>; \<open>remote url\<close> says whether the server answers \<open>url\<close>
  with a success status; \<open>os_error fs p\<close> is the exception, if any, that creating the
  parent directories of \<open>p\<close> and opening \<open>p\<close> for writing raise in a folder whose
  files are \<open>fs\<close> (a parent that is a file, a path that is a directory).
\<close>

record 'p folder =
  files :: "'p set"
  retrieved :: "(string \<times> 'p) list"

text \<open>
  \<open>download_file\<close>: the request is made; a status that is not a success raises
  \<open>HTTPError\<close>, which is caught and logged; otherwise the directories are made and
  the file is written, and what these raise is not caught.
\<close>

definition download_file ::
  "(string \<Rightarrow> bool) \<Rightarrow> ('p set \<Rightarrow> 'p \<Rightarrow> py_error option) \<Rightarrow> string \<Rightarrow> 'p \<Rightarrow> 'p folder \<Rightarrow>
   'p folder \<times> py_error option" where
  "download_file remote os_error url local_filename w =
     (let w1 = w\<lparr>retrieved := retrieved w @ [(url, local_filename)]\<rparr> in
      if remote url then
        (case os_error (files w) local_filename of
           Some e \<Rightarrow> (w1, Some e)
         | None \<Rightarrow> (w1\<lparr>files := insert local_filename (files w)\<rparr>, None))
      else (w1, None))"

definition fetch_missing ::
  "(string \<Rightarrow> bool) \<Rightarrow> ('p set \<Rightarrow> 'p \<Rightarrow> py_error option) \<Rightarrow> string \<Rightarrow> 'p \<Rightarrow> 'p folder \<Rightarrow>
   'p folder \<times> py_error option" where
  "fetch_missing remote os_error url local_path w =
     (if local_path \<notin> files w then download_file remote os_error url local_path w
      else (w, None))"

text \<open>The loop over the images of the document.\<close>

fun image_loop ::
  "('p \<Rightarrow> string \<Rightarrow> 'p) \<Rightarrow> (string \<Rightarrow> bool) \<Rightarrow> ('p set \<Rightarrow> 'p \<Rightarrow> py_error option) \<Rightarrow> string \<Rightarrow> 'p \<Rightarrow>
   element list \<Rightarrow> 'p folder \<Rightarrow> element list \<times> 'p folder \<times> py_error option" where
  "image_loop joinp remote os_error legacy_str subfolder [] w = ([], w, None)"
| "image_loop joinp remote os_error legacy_str subfolder (img # soup) w =
     (if name img = ''img'' then
        (case attrs img ''data-src'' of
           None \<Rightarrow> (img # soup, w, Some KeyError)
         | Some (AStr src) \<Rightarrow>
             (let url = (if prefix ''https:'' src then src
                         else ''https://userguide.volkswagen.de'' @ legacy_str @ src)
              in case split_str url ''key='' of
                   _ # filename # _ \<Rightarrow>
                     (case fetch_missing remote os_error url
                             (joinp (joinp subfolder ''img'') filename) w of
                        (w1, Some e) \<Rightarrow> (img # soup, w1, Some e)
                      | (w1, None) \<Rightarrow>
                          (case image_loop joinp remote os_error legacy_str subfolder soup w1 of
                             (soup', w', r) \<Rightarrow>
                               (set_attr ''src'' (AStr (''img/'' @ filename)) img # soup', w', r)))
                 | _ \<Rightarrow> (img # soup, w, Some IndexError))
         | Some _ \<Rightarrow> (img # soup, w, Some AttributeError))
      else
        (case image_loop joinp remote os_error legacy_str subfolder soup w of
           (soup', w', r) \<Rightarrow> (img # soup', w', r)))"

text \<open>The loop over the resources found in the style sheets.\<close>

fun css_loop ::
  "('p \<Rightarrow> string \<Rightarrow> 'p) \<Rightarrow> (string \<Rightarrow> bool) \<Rightarrow> ('p set \<Rightarrow> 'p \<Rightarrow> py_error option) \<Rightarrow> 'p \<Rightarrow>
   (string \<times> string) list \<Rightarrow> 'p folder \<Rightarrow> 'p folder \<times> py_error option" where
  "css_loop joinp remote os_error subfolder [] w = (w, None)"
| "css_loop joinp remote os_error subfolder ((rel_path, url) # rest) w =
     (case fetch_missing remote os_error url (joinp subfolder rel_path) w of
        (w1, Some e) \<Rightarrow> (w1, Some e)
      | (w1, None) \<Rightarrow> css_loop joinp remote os_error subfolder rest w1)"

text \<open>Both loops, one after the other; the second runs only if the first did not raise.\<close>

definition download_resources ::
  "('p \<Rightarrow> string \<Rightarrow> 'p) \<Rightarrow> (string \<Rightarrow> bool) \<Rightarrow> ('p set \<Rightarrow> 'p \<Rightarrow> py_error option) \<Rightarrow> string \<Rightarrow> 'p \<Rightarrow>
   element list \<Rightarrow> (string \<times> string) list \<Rightarrow> 'p folder \<Rightarrow>
   element list \<times> 'p folder \<times> py_error option" where
  "download_resources joinp remote os_error legacy_str subfolder soup css_resources w =
     (case image_loop joinp remote os_error legacy_str subfolder soup w of
        (soup', w', Some e) \<Rightarrow> (soup', w', Some e)
      | (soup', w', None) \<Rightarrow>
          (case css_loop joinp remote os_error subfolder css_resources w' of
             (w'', r) \<Rightarrow> (soup', w'', r)))"

section \<open>Notions used to state the properties\<close>

text \<open>
  A template seen as literal text interleaved with placeholder tokens, and the text that
  filling every token at once from a replacement dictionary gives. These follow the
  words of the specification; the theorems compare them with the functions above.
\<close>

datatype seg = Lit string | Tok string

fun render_seg :: "seg \<Rightarrow> string" where
  "render_seg (Lit s) = s"
| "render_seg (Tok k) = token k"

definition render :: "seg list \<Rightarrow> string" where
  "render segs = concat (map render_seg segs)"

fun fill_seg :: "(string \<times> string) list \<Rightarrow> seg \<Rightarrow> string" where
  "fill_seg d (Lit s) = s"
| "fill_seg d (Tok k) = (case map_of d k of Some v \<Rightarrow> v | None \<Rightarrow> token k)"

fun sub_seg :: "string \<Rightarrow> string \<Rightarrow> seg \<Rightarrow> seg" where
  "sub_seg k v (Lit s) = Lit s"
| "sub_seg k v (Tok k') = (if k' = k then Lit v else Tok k')"

definition brace_free :: "string \<Rightarrow> bool" where
  "brace_free s = (CHR ''{'' \<notin> set s \<and> CHR ''}'' \<notin> set s)"

text \<open>
  \<open>clear_of pat s\<close>: no occurrence of \<open>pat\<close> begins inside \<open>s\<close>, whatever text
  follows \<open>s\<close> (no suffix of \<open>s\<close> starts with \<open>pat\<close> or is the start of \<open>pat\<close>).
  \<open>lit_clear k g\<close>: the token of \<open>k\<close> begins nowhere inside the literal \<open>g\<close>, and
  the key of a token \<open>g\<close> has no brace. \<open>later_clear d\<close>: no value of \<open>d\<close> has the
  token of a later key of \<open>d\<close> beginning inside it. \<open>splice k vsegs g\<close> puts the
  template \<open>vsegs\<close> in the place of the token of \<open>k\<close>.
\<close>

fun clear_of :: "string \<Rightarrow> string \<Rightarrow> bool" where
  "clear_of pat [] = True"
| "clear_of pat (c # cs) = (\<not> prefix pat (c # cs) \<and> \<not> prefix (c # cs) pat \<and> clear_of pat cs)"

fun later_clear :: "(string \<times> string) list \<Rightarrow> bool" where
  "later_clear [] = True"
| "later_clear ((k, v) # d) = ((\<forall>(k', v') \<in> set d. clear_of (token k') v) \<and> later_clear d)"

fun lit_clear :: "string \<Rightarrow> seg \<Rightarrow> bool" where
  "lit_clear k (Lit s) = clear_of (token k) s"
| "lit_clear k (Tok k') = brace_free k'"

fun splice :: "string \<Rightarrow> seg list \<Rightarrow> seg \<Rightarrow> seg list" where
  "splice k vsegs (Lit s) = [Lit s]"
| "splice k vsegs (Tok k') = (if k' = k then vsegs else [Tok k'])"

text \<open>
  A cross-topic anchor as the live pages carry it, and the property of an anchor of
  lacking one of the two attributes the live pages use.
\<close>

definition link_a1 :: element where
  "link_a1 = \<lparr>name = ''a'', attrs = [''id'' \<mapsto> AStr ''a1'', ''class'' \<mapsto> AList [''dynamic-link''],
       ''checked-link'' \<mapsto> AStr ''true'', ''data-facets'' \<mapsto> AStr ''f'']\<rparr>"

definition lacks_live_attr :: "element \<Rightarrow> bool" where
  "lacks_live_attr a = (attrs a ''checked-link'' = None \<or> attrs a ''data-facets'' = None)"

text \<open>
  The reference maps fetched for the leaves of a tree, in tree order (a leaf whose fetch
  fails or which has no content key contributes none), their union built from the left,
  and the property that no two of them share a key.
\<close>

fun fetched_maps :: "session \<Rightarrow> topic \<Rightarrow> refmap list" where
  "fetched_maps session (Topic nid lbl lnk cs) =
     (if cs \<noteq> [] then concat (map (fetched_maps session) cs)
      else if lnk \<noteq> [] then (case session lnk of Ok bodyHtml linkState \<Rightarrow> [linkState] | HTTPError \<Rightarrow> [])
      else [])"

definition merge_maps :: "refmap list \<Rightarrow> refmap" where
  "merge_maps ms = foldr (++) ms Map.empty"

fun disjoint_maps :: "refmap list \<Rightarrow> bool" where
  "disjoint_maps [] = True"
| "disjoint_maps (m # ms) = ((\<forall>m' \<in> set ms. dom m \<inter> dom m' = {}) \<and> disjoint_maps ms)"

text \<open>The leaves of a tree, in tree order.\<close>

fun leaves :: "topic \<Rightarrow> topic list" where
  "leaves (Topic nid lbl lnk cs) =
     (if cs \<noteq> [] then concat (map leaves cs) else [Topic nid lbl lnk cs])"

text \<open>
  A small guide for the examples: one chapter with two sections, the second of which
  the server does not have, and one section at the top level whose body comes wrapped
  in a document shell. The key \<open>k3\<close> has a body that ends a shell it never opened.
\<close>

definition demo_session :: session where
  "demo_session key =
     (if key = ''k1'' then Ok ''<p>one</p>'' [''a1'' \<mapsto> \<lparr>target = Some ''t1''\<rparr>]
      else if key = ''k2'' then Ok ''<html lang=x><p>two</p></html>'' [''a2'' \<mapsto> \<lparr>target = None\<rparr>]
      else if key = ''k3'' then Ok ''<p>three</p></html>'' Map.empty
      else HTTPError)"

definition demo_templates :: templates where
  "demo_templates = \<lparr>index = ''{{USERGUIDE_CONTENT}}'',
     topic_w_children = ''<s>{{TOPIC_CHILDREN}}</s>'', topic_wo_children = ''<t>{{TOPIC_CONTENT}}</t>'',
     toc_w_children = ''<u>{{TOC_CHILDREN}}</u>'', toc_wo_children = ''<l>{{TOPIC_TITLE}}</l>''\<rparr>"

definition demo_guide :: "topic list" where
  "demo_guide = [Topic ''n1'' ''A'' [] [Topic ''n2'' ''B'' ''k1'' [], Topic ''n3'' ''C'' ''gone'' []],
                 Topic ''n4'' ''D'' ''k2'' []]"

definition demo_sections :: "topic list" where
  "demo_sections = [Topic ''n2'' ''B'' ''k1'' [], Topic ''n3'' ''C'' ''gone'' [], Topic ''n4'' ''D'' ''k2'' []]"

text \<open>
  The outcome of a run, a folder and the exception that stopped the run if any, extends
  the folder the run started from: no file is lost, every new retrieval is for a path
  that was not a file before, and, when nothing was raised, every new retrieval the
  server answered has left its file.
\<close>

definition extends :: "(string \<Rightarrow> bool) \<Rightarrow> 'p folder \<Rightarrow> 'p folder \<times> py_error option \<Rightarrow> bool" where
  "extends remote w res =
     (files w \<subseteq> files (fst res) \<and>
      (\<forall>(u, p) \<in> set (retrieved (fst res)). (u, p) \<in> set (retrieved w) \<or> p \<notin> files w) \<and>
      (snd res = None \<longrightarrow>
         (\<forall>(u, p) \<in> set (retrieved (fst res)).
            (u, p) \<in> set (retrieved w) \<or> (remote u \<longrightarrow> p \<in> files (fst res)))))"

text \<open>A page with two images and a folder that already holds the first of them.\<close>

definition demo_page :: "element list" where
  "demo_page =
     [\<lparr>name = ''img'', attrs = [''data-src'' \<mapsto> AStr ''/api/img?key=pic1'']\<rparr>,
      \<lparr>name = ''p'', attrs = Map.empty\<rparr>,
      \<lparr>name = ''img'', attrs = [''data-src'' \<mapsto> AStr ''https://cdn/x?key=pic2'']\<rparr>]"

definition demo_folder :: "string folder" where
  "demo_folder = \<lparr>files = {''out/img/pic1''}, retrieved = []\<rparr>"




section \<open>Template substitution: properties\<close>

lemma replace_skip:
  "CHR ''{'' \<notin> set s \<Longrightarrow> replace_str (s @ r) (token k) v = s @ replace_str r (token k) v"
  by (induction s) (auto simp: token_def)

lemma close_prefix:
  "CHR ''}'' \<notin> set k \<Longrightarrow> CHR ''}'' \<notin> set k' \<Longrightarrow>
   prefix (k @ CHR ''}'' # x) (k' @ CHR ''}'' # y) \<Longrightarrow> k = k'"
proof (induction k arbitrary: k')
  case Nil
  then show ?case by (cases k') auto
next
  case (Cons a k)
  then show ?case by (cases k') auto
qed

lemma token_prefix:
  "brace_free k \<Longrightarrow> brace_free k' \<Longrightarrow> prefix (token k) (token k' @ r) \<Longrightarrow> k = k'"
  using close_prefix [of k k' "''}''" "CHR ''}'' # r"] by (simp add: token_def brace_free_def)

lemma replace_open:
  "CHR ''{'' \<notin> set s \<Longrightarrow> s \<noteq> [] \<Longrightarrow>
   replace_str (CHR ''{'' # s @ r) (token k) v = CHR ''{'' # s @ replace_str r (token k) v"
  using replace_skip [of s r k v] by (cases s) (auto simp: token_def)

lemma replace_hit: "replace_str (token k @ r) (token k) v = v @ replace_str r (token k) v"
  by (simp add: token_def)

lemma replace_miss:
  assumes bf: "brace_free k" "brace_free k'" and ne: "k \<noteq> k'"
  shows "replace_str (token k' @ r) (token k) v = token k' @ replace_str r (token k) v"
proof -
  have np: "\<not> prefix (token k) (token k' @ r)"
    using token_prefix [OF bf] ne by blast
  have tk: "token k' @ r = CHR ''{'' # CHR ''{'' # (k' @ ''}}'') @ r" "token k \<noteq> []"
    by (simp_all add: token_def)
  have "replace_str (token k' @ r) (token k) v =
        CHR ''{'' # replace_str (CHR ''{'' # (k' @ ''}}'') @ r) (token k) v"
    using np tk by simp
  also have "\<dots> = CHR ''{'' # CHR ''{'' # (k' @ ''}}'') @ replace_str r (token k) v"
    using replace_open [of "k' @ ''}}''" r k v] bf(2) by (simp add: brace_free_def)
  finally show ?thesis by (simp add: token_def)
qed

lemma fill_sub: "fill_seg d (sub_seg k v g) = fill_seg ((k, v) # d) g"
  by (cases g) auto

lemma replace_clear:
  "clear_of (token k) s \<Longrightarrow> replace_str (s @ r) (token k) v = s @ replace_str r (token k) v"
proof (induction s)
  case Nil
  then show ?case by simp
next
  case (Cons c s)
  then have "\<not> prefix (token k) ((c # s) @ r)"
    using prefix_append [of "token k" "c # s" r] by auto
  moreover have "token k \<noteq> []" by (simp add: token_def)
  ultimately show ?case using Cons by simp
qed

lemma replace_segs:
  "brace_free k \<Longrightarrow> \<forall>g \<in> set segs. lit_clear k g \<Longrightarrow>
   replace_str (render segs @ r) (token k) v =
   render (map (sub_seg k v) segs) @ replace_str r (token k) v"
proof (induction segs)
  case Nil
  then show ?case by (simp add: render_def)
next
  case (Cons g segs)
  then show ?case
    by (cases g) (auto simp: render_def replace_clear replace_hit replace_miss)
qed

lemma replace_segs_whole:
  "brace_free k \<Longrightarrow> \<forall>g \<in> set segs. lit_clear k g \<Longrightarrow>
   replace_str (render segs) (token k) v = render (map (sub_seg k v) segs)"
  using replace_segs [of k segs "[]" v] by (simp add: token_def)

lemma sub_seg_clear:
  "lit_clear k' g \<Longrightarrow> clear_of (token k') v \<Longrightarrow> lit_clear k' (sub_seg k v g)"
  by (cases g) auto

lemma fill_literal:
  "\<forall>(k, v) \<in> set d. brace_free k \<and> (\<forall>g \<in> set segs. lit_clear k g) \<Longrightarrow> later_clear d \<Longrightarrow>
   replace_in_template (render segs) d = concat (map (fill_seg d) segs)"
proof (induction d arbitrary: segs)
  case Nil
  have "fill_seg [] g = render_seg g" for g by (cases g) auto
  then show ?case by (simp add: render_def)
next
  case (Cons p d)
  obtain k v where p: "p = (k, v)" by (cases p)
  from Cons.prems(1) p have k: "brace_free k" "\<forall>g \<in> set segs. lit_clear k g" by auto
  let ?segs = "map (sub_seg k v) segs"
  have step: "replace_str (render segs) (token k) v = render ?segs"
    by (rule replace_segs_whole [OF k])
  have later: "\<forall>(k', v') \<in> set d. clear_of (token k') v" "later_clear d"
    using Cons.prems(2) p by auto
  have free: "\<forall>(k', v') \<in> set d. brace_free k' \<and> (\<forall>g \<in> set ?segs. lit_clear k' g)"
  proof -
    have "brace_free k' \<and> (\<forall>g \<in> set ?segs. lit_clear k' g)" if "(k', v') \<in> set d" for k' v'
    proof -
      from that Cons.prems(1) have a: "brace_free k'" "\<forall>g \<in> set segs. lit_clear k' g" by auto
      from that later(1) have "clear_of (token k') v" by auto
      with a show ?thesis by (auto intro: sub_seg_clear)
    qed
    then show ?thesis by auto
  qed
  have "replace_in_template (render segs) (p # d) = replace_in_template (render ?segs) d"
    by (simp add: p step)
  also have "\<dots> = concat (map (fill_seg d) ?segs)"
    by (rule Cons.IH [OF free later(2)])
  also have "\<dots> = concat (map (fill_seg (p # d)) segs)"
    by (simp add: p fill_sub o_def)
  finally show ?case .
qed

lemma render_splice:
  "render (map (sub_seg k (render vsegs)) segs) = render (concat (map (splice k vsegs) segs))"
proof (induction segs)
  case Nil
  then show ?case by simp
next
  case (Cons g segs)
  then show ?case by (cases g) (auto simp: render_def)
qed

lemma fill_nested:
  assumes "brace_free k" and "\<forall>g \<in> set segs. lit_clear k g"
    and "\<forall>(k', v') \<in> set d. brace_free k' \<and> (\<forall>g \<in> set (segs @ vsegs). lit_clear k' g)"
    and "later_clear d"
  shows "replace_in_template (render segs) ((k, render vsegs) # d) =
         concat (map (fill_seg d) (concat (map (splice k vsegs) segs)))"
proof -
  have "replace_in_template (render segs) ((k, render vsegs) # d) =
        replace_in_template (render (concat (map (splice k vsegs) segs))) d"
    using replace_segs_whole [OF assms(1,2), of "render vsegs"] by (simp add: render_splice)
  moreover have "\<forall>(k', v') \<in> set d. brace_free k' \<and>
      (\<forall>g \<in> set (concat (map (splice k vsegs) segs)). lit_clear k' g)"
  proof -
    have "g' = g \<or> g' \<in> set vsegs" if "g' \<in> set (splice k vsegs g)" for g g'
      using that by (cases g) (auto split: if_splits)
    then have "g' \<in> set (segs @ vsegs)"
      if "g' \<in> set (concat (map (splice k vsegs) segs))" for g'
      using that by auto
    then show ?thesis using assms(3) by fastforce
  qed
  ultimately show ?thesis using fill_literal [OF _ assms(4)] by simp
qed

text \<open>
  C6, as the code has it. The template is literal text and placeholder tokens; the keys
  have no brace, no token of a key of the dictionary begins inside the literal text, and
  no token of a later key begins inside the value of an earlier key (a value may hold
  any other braces, and tokens of earlier keys or of keys the dictionary lacks). Then
  the substitution fills every token whose key the dictionary has with that key's value
  and leaves the literal text and every other token as they are: a key never matches
  inside a longer key, and the values stand exactly where the tokens stood. The keys are
  replaced in the order of the dictionary: when the value of the first key is itself a
  template, its tokens are filled by the keys that follow.
\<close>

theorem replace_in_template_in_order:
  "((\<forall>(k, v) \<in> set d. brace_free k \<and> (\<forall>g \<in> set segs. lit_clear k g)) \<and> later_clear d \<longrightarrow>
      replace_in_template (render segs) d = concat (map (fill_seg d) segs)) \<and>
   (brace_free k \<and> (\<forall>g \<in> set segs. lit_clear k g) \<and>
    (\<forall>(k', v') \<in> set d. brace_free k' \<and> (\<forall>g \<in> set (segs @ vsegs). lit_clear k' g)) \<and>
    later_clear d \<longrightarrow>
      replace_in_template (render segs) ((k, render vsegs) # d) =
        concat (map (fill_seg d) (concat (map (splice k vsegs) segs))))"
  using fill_literal [of d segs] fill_nested [of k segs d vsegs] by blast

theorem replace_in_template_in_order_witness:
  "replace_in_template ''<style>a{x}</style>{{TOPIC_ID}}-{{TOPIC_ID_OLD}}:{{TOPIC_TITLE}}''
     [(''TOPIC_ID'', ''n{7}''), (''TOPIC_TITLE'', ''{{TOPIC_ID}}'')] =
     ''<style>a{x}</style>n{7}-{{TOPIC_ID_OLD}}:{{TOPIC_ID}}'' \<and>
   replace_in_template ''{{A}}-{{B}}'' [(''A'', ''<{{B}}>''), (''B'', ''x'')] = ''<x>-x''"
  using replace_in_template_in_order
      [of "[(''TOPIC_ID'', ''n{7}''), (''TOPIC_TITLE'', ''{{TOPIC_ID}}'')]"
          "[Lit ''<style>a{x}</style>'', Tok ''TOPIC_ID'', Lit ''-'', Tok ''TOPIC_ID_OLD'',
            Lit '':'', Tok ''TOPIC_TITLE'']"]
    replace_in_template_in_order
      [of "[(''B'', ''x'')]" "[Tok ''A'', Lit ''-'', Tok ''B'']" "''A''"
          "[Lit ''<'', Tok ''B'', Lit ''>'']"]
  by (simp add: render_def token_def brace_free_def)

text \<open>
  C6, as the specification states it, fails: the replacements run one after the other,
  so a token inside a value already substituted is expanded by a later key. With the
  template \<open>{{A}}{{B}}\<close>, \<open>A\<close> mapped to the text \<open>{{B}}\<close> and \<open>B\<close> to \<open>x\<close>, a
  literal substitution would give \<open>{{B}}x\<close>; the code gives \<open>xx\<close>.
\<close>

theorem nested_expansion_counterexample:
  "replace_in_template ''{{A}}{{B}}'' [(''A'', ''{{B}}''), (''B'', ''x'')] = ''xx'' \<and>
   replace_in_template ''{{A}}{{B}}'' [(''A'', ''{{B}}''), (''B'', ''x'')] \<noteq> ''{{B}}'' @ ''x''"
  by (simp add: token_def)

section \<open>Assembling the topic tree: properties\<close>


lemma merge_maps_append: "merge_maps (xs @ ys) = merge_maps xs ++ merge_maps ys"
  by (induction xs) (simp_all add: merge_maps_def)

lemma leaf_content_maps:
  "leaf_content session crash lnk = Inr (content, h) \<Longrightarrow>
   h = merge_maps (case session lnk of Ok bodyHtml linkState \<Rightarrow> [linkState] | HTTPError \<Rightarrow> [])"
  by (auto simp: leaf_content_def merge_maps_def split: response.splits if_splits option.splits)

lemma build_href:
  "(build_dom tp session tpl crash t level = Inr (b, tc, h) \<longrightarrow>
      h = merge_maps (fetched_maps session t)) \<and> True"
  "(build_children tp session tpl crash ts level acc = Inr (b, tc, h) \<longrightarrow>
      h = snd (snd acc) ++ merge_maps (concat (map (fetched_maps session) ts))) \<and> True"
proof (induction tp session tpl crash t level and tp session tpl crash ts level acc
    arbitrary: b tc h and b tc h rule: build_dom_build_children.induct)
  case (1 tp session tpl crash nid lbl lnk cs level)
  show ?case
  proof (cases "cs = []")
    case True
    then show ?thesis
      by (auto simp: Let_def merge_maps_def dest!: leaf_content_maps split: sum.splits if_splits)
  next
    case False
    then show ?thesis
      using 1 by (auto simp: Let_def split: sum.splits prod.splits)
  qed
next
  case (2 tp session tpl crash level acc)
  then show ?case by (simp add: merge_maps_def)
next
  case (3 tp session tpl crash child rest level acc)
  then show ?case
    by (auto simp: merge_maps_append split: sum.splits prod.splits)
qed

lemma merge_disjoint:
  "disjoint_maps ms \<Longrightarrow> (merge_maps ms k = Some v) = (\<exists>m \<in> set ms. m k = Some v)"
proof (induction ms arbitrary: v)
  case Nil
  then show ?case by (simp add: merge_maps_def)
next
  case (Cons m ms)
  have step: "merge_maps (m # ms) = m ++ merge_maps ms" by (simp add: merge_maps_def)
  show ?case
  proof (cases "merge_maps ms k")
    case None
    with Cons show ?thesis by (auto simp: step map_add_def)
  next
    case (Some w)
    from Cons.prems have dis: "disjoint_maps ms" by simp
    from Cons.IH [OF dis, of w] Some obtain m' where m': "m' \<in> set ms" "m' k = Some w" by auto
    from Cons.prems m'(1) have "dom m \<inter> dom m' = {}" by simp
    moreover from m'(2) have "k \<in> dom m'" by blast
    ultimately have mk: "m k = None" by blast
    have "(merge_maps (m # ms) k = Some v) = (w = v)" using Some by (simp add: step map_add_def)
    also have "\<dots> = (\<exists>m \<in> set ms. m k = Some v)" using Cons.IH [OF dis, of v] Some by auto
    also have "\<dots> = (\<exists>m \<in> set (m # ms). m k = Some v)" using mk by auto
    finally show ?thesis .
  qed
qed


lemma demo_run:
  "assemble ''sidebar'' demo_session demo_templates False demo_guide =
     Inr (''<s><t><p>one</p></t><t><div></div></t></s><t><p>two</p></t>'',
          ''<u><l>B</l><l>C</l></u><l>D</l>'',
          [''a1'' \<mapsto> \<lparr>target = Some ''t1''\<rparr>, ''a2'' \<mapsto> \<lparr>target = None\<rparr>])"
  by (simp add: assemble_def demo_session_def demo_templates_def demo_guide_def leaf_content_def
      match_html_def token_def)

text \<open>
  C4. When the whole guide is assembled and no two of the reference maps fetched for its
  leaves share a key, the reference map of the result holds exactly the entries of those
  maps: an entry is in the result if and only if it is in the map of some leaf.
\<close>

theorem refmap_is_union:
  assumes "assemble tp session tpl crash ug_json = Inr (body, toc, href)"
    and "disjoint_maps (concat (map (fetched_maps session) ug_json))"
  shows "(href k = Some v) = (\<exists>m \<in> set (concat (map (fetched_maps session) ug_json)). m k = Some v)"
proof -
  have "href = merge_maps (concat (map (fetched_maps session) ug_json))"
    using build_href(2) [of tp session tpl crash ug_json 0 "([], [], Map.empty)" body toc href] assms(1)
    by (simp add: assemble_def)
  then show ?thesis using merge_disjoint [OF assms(2)] by simp
qed


theorem refmap_is_union_witness:
  "\<exists>body toc href.
     assemble ''sidebar'' demo_session demo_templates False demo_guide = Inr (body, toc, href) \<and>
     href ''a1'' = Some \<lparr>target = Some ''t1''\<rparr> \<and> href ''a2'' = Some \<lparr>target = None\<rparr>"
proof -
  have dis: "disjoint_maps (concat (map (fetched_maps demo_session) demo_guide))"
    by (simp add: demo_guide_def demo_session_def)
  have in1: "\<exists>m \<in> set (concat (map (fetched_maps demo_session) demo_guide)).
      m ''a1'' = Some \<lparr>target = Some ''t1''\<rparr>"
    by (simp add: demo_guide_def demo_session_def)
  have in2: "\<exists>m \<in> set (concat (map (fetched_maps demo_session) demo_guide)).
      m ''a2'' = Some \<lparr>target = None\<rparr>"
    by (simp add: demo_guide_def demo_session_def)
  show ?thesis
    using refmap_is_union [OF demo_run dis] in1 in2 demo_run by blast
qed

lemma tolerant_errors:
  "(build_dom tp session tpl False t level = Inl e \<longrightarrow> e = AttributeError) \<and> True"
  "(build_children tp session tpl False ts level acc = Inl e \<longrightarrow> e = AttributeError) \<and> True"
proof (induction tp session tpl "False" t level and tp session tpl "False" ts level acc
    arbitrary: e and e rule: build_dom_build_children.induct)
  case (1 tp session tpl nid lbl lnk cs level)
  show ?case
  proof (cases "cs = []")
    case True
    then show ?thesis
      by (auto simp: Let_def leaf_content_def split: sum.splits if_splits response.splits option.splits)
  next
    case False
    then show ?thesis
      using 1 by (auto simp: Let_def split: sum.splits prod.splits)
  qed
next
  case (2 tp session tpl level acc)
  then show ?case by simp
next
  case (3 tp session tpl child rest level acc)
  then show ?case
    by (auto split: sum.splits prod.splits)
qed

lemma fatal_aborts:
  "(Topic nid lbl lnk [] \<in> set (leaves t) \<and> lnk \<noteq> [] \<and> session lnk = HTTPError \<longrightarrow>
      (\<exists>e. build_dom tp session tpl True t level = Inl e)) \<and> True"
  "(Topic nid lbl lnk [] \<in> set (concat (map leaves ts)) \<and> lnk \<noteq> [] \<and> session lnk = HTTPError \<longrightarrow>
      (\<exists>e. build_children tp session tpl True ts level acc = Inl e)) \<and> True"
proof (induction tp session tpl "True" t level and tp session tpl "True" ts level acc
    rule: build_dom_build_children.induct)
  case (1 tp session tpl nid' lbl' lnk' cs level)
  show ?case
  proof (cases "cs = []")
    case True
    then show ?thesis
      by (auto simp: Let_def leaf_content_def split: sum.splits)
  next
    case False
    then show ?thesis
      using 1 by (auto simp: Let_def split: sum.splits prod.splits)
  qed
next
  case (2 tp session tpl level acc)
  then show ?case by simp
next
  case (3 tp session tpl child rest level acc)
  show ?case
  proof (cases "build_dom tp session tpl True child level")
    case (Inl e)
    then show ?thesis by simp
  next
    case (Inr r)
    obtain bc tc hc where r: "r = (bc, tc, hc)" by (cases r)
    obtain b0 t0 h0 where acc: "acc = (b0, t0, h0)" by (cases acc)
    have child: "\<not> (Topic nid lbl lnk [] \<in> set (leaves child) \<and> lnk \<noteq> [] \<and> session lnk = HTTPError)"
      using 3(1) Inr by auto
    have rest: "Topic nid lbl lnk [] \<in> set (concat (map leaves rest)) \<and> lnk \<noteq> [] \<and>
        session lnk = HTTPError \<longrightarrow>
        (\<exists>e. build_children tp session tpl True rest level (b0 @ bc, t0 @ tc, h0 ++ hc) = Inl e)"
      using 3(2) [OF Inr r [symmetric] refl acc [symmetric] refl] by blast
    show ?thesis using child rest Inr r acc by auto
  qed
qed

lemma merge_maps_Cons: "merge_maps (m # ms) = m ++ merge_maps ms"
  by (simp add: merge_maps_def)

lemma build_children_units:
  "list_all2 (\<lambda>s u. build_dom tp session tpl crash s level = Inr u) ts us \<Longrightarrow>
   build_children tp session tpl crash ts level (bb, tt, hh) =
     Inr (bb @ concat (map fst us), tt @ concat (map (fst \<circ> snd) us),
          hh ++ merge_maps (map (snd \<circ> snd) us))"
proof (induction ts us arbitrary: bb tt hh rule: list_all2_induct)
  case Nil
  then show ?case by (simp add: merge_maps_def)
next
  case (Cons s ts u us)
  obtain b t h where u: "u = (b, t, h)" by (cases u)
  show ?case
    using Cons.hyps(1) Cons.IH [of "bb @ b" "tt @ t" "hh ++ h"]
    by (simp add: u merge_maps_Cons)
qed

lemma placeholder_unit:
  assumes "lnk \<noteq> []" and "session lnk = HTTPError"
  shows "build_dom tp session tpl False (Topic nid lbl lnk []) level =
           Inr (replace_in_template (topic_wo_children tpl)
                  [(''TOPIC_ID'', nid), (''TOPIC_LINK'', lnk), (''TOPIC_TITLE'', lbl),
                   (''TOPIC_CONTENT'', ''<div></div>'')],
                replace_in_template (toc_wo_children tpl)
                  [(''TOPIC_ID'', nid), (''TOPIC_LINK'', lnk), (''TOPIC_TITLE'', lbl),
                   (''TOPIC_CONTENT'', ''<div></div>'')],
                Map.empty)"
  using assms by (simp add: leaf_content_def)

lemma tolerant_siblings:
  assumes "lnk \<noteq> []" and "session lnk = HTTPError"
    and "list_all2 (\<lambda>s u. build_dom tp session tpl False s level = Inr u) pre us"
    and "list_all2 (\<lambda>s u. build_dom tp session tpl False s level = Inr u) post vs"
  shows "build_children tp session tpl False (pre @ Topic nid lbl lnk [] # post) level (bb, tt, hh) =
     Inr (bb @ concat (map fst us) @
            replace_in_template (topic_wo_children tpl)
              [(''TOPIC_ID'', nid), (''TOPIC_LINK'', lnk), (''TOPIC_TITLE'', lbl),
               (''TOPIC_CONTENT'', ''<div></div>'')] @
            concat (map fst vs),
          tt @ concat (map (fst \<circ> snd) us) @
            replace_in_template (toc_wo_children tpl)
              [(''TOPIC_ID'', nid), (''TOPIC_LINK'', lnk), (''TOPIC_TITLE'', lbl),
               (''TOPIC_CONTENT'', ''<div></div>'')] @
            concat (map (fst \<circ> snd) vs),
          hh ++ merge_maps (map (snd \<circ> snd) us) ++ merge_maps (map (snd \<circ> snd) vs))"
proof -
  let ?ph = "(replace_in_template (topic_wo_children tpl)
                  [(''TOPIC_ID'', nid), (''TOPIC_LINK'', lnk), (''TOPIC_TITLE'', lbl),
                   (''TOPIC_CONTENT'', ''<div></div>'')],
              replace_in_template (toc_wo_children tpl)
                  [(''TOPIC_ID'', nid), (''TOPIC_LINK'', lnk), (''TOPIC_TITLE'', lbl),
                   (''TOPIC_CONTENT'', ''<div></div>'')],
              Map.empty :: refmap)"
  have "list_all2 (\<lambda>s u. build_dom tp session tpl False s level = Inr u)
      (pre @ Topic nid lbl lnk [] # post) (us @ ?ph # vs)"
    using assms(3,4) placeholder_unit [where session = session and lnk = lnk, OF assms(1,2)]
    by (intro list_all2_appendI list_all2_Cons [THEN iffD2]) simp_all
  from build_children_units [OF this, of bb tt hh] show ?thesis
    by (simp add: merge_maps_append merge_maps_Cons)
qed

text \<open>
  C5. A leaf whose fetch fails with the not-found error. Under the tolerant policy
  (\<open>crash_on_error\<close> false) the leaf is rendered as any other, with the body
  \<open><div></div>\<close> and no reference map; the loop over its siblings goes on with that
  unit appended; when the siblings before and after it are rendered, the loop, and the
  assembly of the whole guide, return the units of all of them in order with the unit of
  the failed leaf at its place, and the union of their reference maps; and no assembly
  ever stops with \<open>sys.exit(1)\<close>. Under the fatal policy the leaf stops with
  \<open>sys.exit(1)\<close>, and the assembly of any guide that holds it does not return.
\<close>

theorem not_found_leaf_policy:
  assumes "lnk \<noteq> []" and "session lnk = HTTPError"
  shows "build_dom tp session tpl False (Topic nid lbl lnk []) level =
           Inr (replace_in_template (topic_wo_children tpl)
                  [(''TOPIC_ID'', nid), (''TOPIC_LINK'', lnk), (''TOPIC_TITLE'', lbl),
                   (''TOPIC_CONTENT'', ''<div></div>'')],
                replace_in_template (toc_wo_children tpl)
                  [(''TOPIC_ID'', nid), (''TOPIC_LINK'', lnk), (''TOPIC_TITLE'', lbl),
                   (''TOPIC_CONTENT'', ''<div></div>'')],
                Map.empty) \<and>
         build_children tp session tpl False (Topic nid lbl lnk [] # rest) level (b, t, h) =
           build_children tp session tpl False rest level
             (b @ replace_in_template (topic_wo_children tpl)
                  [(''TOPIC_ID'', nid), (''TOPIC_LINK'', lnk), (''TOPIC_TITLE'', lbl),
                   (''TOPIC_CONTENT'', ''<div></div>'')],
              t @ replace_in_template (toc_wo_children tpl)
                  [(''TOPIC_ID'', nid), (''TOPIC_LINK'', lnk), (''TOPIC_TITLE'', lbl),
                   (''TOPIC_CONTENT'', ''<div></div>'')],
              h) \<and>
         (list_all2 (\<lambda>s u. build_dom tp session tpl False s level = Inr u) pre us \<and>
          list_all2 (\<lambda>s u. build_dom tp session tpl False s level = Inr u) post vs \<longrightarrow>
            build_children tp session tpl False (pre @ Topic nid lbl lnk [] # post) level
                (b, t, h) =
              Inr (b @ concat (map fst us) @ replace_in_template (topic_wo_children tpl)
                  [(''TOPIC_ID'', nid), (''TOPIC_LINK'', lnk), (''TOPIC_TITLE'', lbl),
                   (''TOPIC_CONTENT'', ''<div></div>'')] @ concat (map fst vs),
                   t @ concat (map (fst \<circ> snd) us) @ replace_in_template (toc_wo_children tpl)
                  [(''TOPIC_ID'', nid), (''TOPIC_LINK'', lnk), (''TOPIC_TITLE'', lbl),
                   (''TOPIC_CONTENT'', ''<div></div>'')] @ concat (map (fst \<circ> snd) vs),
                   h ++ merge_maps (map (snd \<circ> snd) us) ++ merge_maps (map (snd \<circ> snd) vs)) \<and>
            (level = 0 \<longrightarrow>
               assemble tp session tpl False (pre @ Topic nid lbl lnk [] # post) =
                 Inr (concat (map fst us) @ replace_in_template (topic_wo_children tpl)
                  [(''TOPIC_ID'', nid), (''TOPIC_LINK'', lnk), (''TOPIC_TITLE'', lbl),
                   (''TOPIC_CONTENT'', ''<div></div>'')] @ concat (map fst vs),
                      concat (map (fst \<circ> snd) us) @ replace_in_template (toc_wo_children tpl)
                  [(''TOPIC_ID'', nid), (''TOPIC_LINK'', lnk), (''TOPIC_TITLE'', lbl),
                   (''TOPIC_CONTENT'', ''<div></div>'')] @ concat (map (fst \<circ> snd) vs),
                      merge_maps (map (snd \<circ> snd) us) ++ merge_maps (map (snd \<circ> snd) vs)))) \<and>
         assemble tp session tpl False ug_json \<noteq> Inl (SystemExit 1) \<and>
         build_dom tp session tpl True (Topic nid lbl lnk []) level = Inl (SystemExit 1) \<and>
         (Topic nid lbl lnk [] \<in> set (concat (map leaves ug_json)) \<longrightarrow>
            (\<exists>e. assemble tp session tpl True ug_json = Inl e))"
proof -
  have c1: "build_dom tp session tpl False (Topic nid lbl lnk []) level =
           Inr (replace_in_template (topic_wo_children tpl)
                  [(''TOPIC_ID'', nid), (''TOPIC_LINK'', lnk), (''TOPIC_TITLE'', lbl),
                   (''TOPIC_CONTENT'', ''<div></div>'')],
                replace_in_template (toc_wo_children tpl)
                  [(''TOPIC_ID'', nid), (''TOPIC_LINK'', lnk), (''TOPIC_TITLE'', lbl),
                   (''TOPIC_CONTENT'', ''<div></div>'')],
                Map.empty)"
    using placeholder_unit [where session = session and lnk = lnk, OF assms] .
  have c2: "build_children tp session tpl False (Topic nid lbl lnk [] # rest) level (b, t, h) =
           build_children tp session tpl False rest level
             (b @ replace_in_template (topic_wo_children tpl)
                  [(''TOPIC_ID'', nid), (''TOPIC_LINK'', lnk), (''TOPIC_TITLE'', lbl),
                   (''TOPIC_CONTENT'', ''<div></div>'')],
              t @ replace_in_template (toc_wo_children tpl)
                  [(''TOPIC_ID'', nid), (''TOPIC_LINK'', lnk), (''TOPIC_TITLE'', lbl),
                   (''TOPIC_CONTENT'', ''<div></div>'')],
              h)"
    using assms by (simp add: leaf_content_def)
  have c3: "build_children tp session tpl False (pre @ Topic nid lbl lnk [] # post) level
                (b, t, h) =
              Inr (b @ concat (map fst us) @ replace_in_template (topic_wo_children tpl)
                  [(''TOPIC_ID'', nid), (''TOPIC_LINK'', lnk), (''TOPIC_TITLE'', lbl),
                   (''TOPIC_CONTENT'', ''<div></div>'')] @ concat (map fst vs),
                   t @ concat (map (fst \<circ> snd) us) @ replace_in_template (toc_wo_children tpl)
                  [(''TOPIC_ID'', nid), (''TOPIC_LINK'', lnk), (''TOPIC_TITLE'', lbl),
                   (''TOPIC_CONTENT'', ''<div></div>'')] @ concat (map (fst \<circ> snd) vs),
                   h ++ merge_maps (map (snd \<circ> snd) us) ++ merge_maps (map (snd \<circ> snd) vs))"
    if "list_all2 (\<lambda>s u. build_dom tp session tpl False s level = Inr u) pre us"
      "list_all2 (\<lambda>s u. build_dom tp session tpl False s level = Inr u) post vs"
    using tolerant_siblings [where session = session and lnk = lnk, OF assms that] .
  have c4: "assemble tp session tpl False (pre @ Topic nid lbl lnk [] # post) =
                 Inr (concat (map fst us) @ replace_in_template (topic_wo_children tpl)
                  [(''TOPIC_ID'', nid), (''TOPIC_LINK'', lnk), (''TOPIC_TITLE'', lbl),
                   (''TOPIC_CONTENT'', ''<div></div>'')] @ concat (map fst vs),
                      concat (map (fst \<circ> snd) us) @ replace_in_template (toc_wo_children tpl)
                  [(''TOPIC_ID'', nid), (''TOPIC_LINK'', lnk), (''TOPIC_TITLE'', lbl),
                   (''TOPIC_CONTENT'', ''<div></div>'')] @ concat (map (fst \<circ> snd) vs),
                      merge_maps (map (snd \<circ> snd) us) ++ merge_maps (map (snd \<circ> snd) vs))"
    if "list_all2 (\<lambda>s u. build_dom tp session tpl False s level = Inr u) pre us"
      "list_all2 (\<lambda>s u. build_dom tp session tpl False s level = Inr u) post vs" "level = 0"
    using tolerant_siblings [where session = session and lnk = lnk and level = 0 and bb = "[]"
        and tt = "[]" and hh = Map.empty, OF assms] that
    by (simp add: assemble_def)
  have c5: "assemble tp session tpl False ug_json \<noteq> Inl (SystemExit 1)"
    using tolerant_errors(2) [of tp session tpl ug_json 0 "([], [], Map.empty)" "SystemExit 1"]
    by (auto simp: assemble_def)
  have c6: "build_dom tp session tpl True (Topic nid lbl lnk []) level = Inl (SystemExit 1)"
    using assms by (simp add: leaf_content_def)
  have c7: "Topic nid lbl lnk [] \<in> set (concat (map leaves ug_json)) \<longrightarrow>
      (\<exists>e. assemble tp session tpl True ug_json = Inl e)"
    using fatal_aborts(2) [of nid lbl lnk ug_json session tp tpl 0 "([], [], Map.empty)"] assms
    by (simp add: assemble_def)
  show ?thesis using c1 c2 c3 c4 c5 c6 c7 by blast
qed

theorem not_found_leaf_policy_witness:
  "build_dom ''sidebar'' demo_session demo_templates False (Topic ''n3'' ''C'' ''gone'' []) 1 =
     Inr (''<t><div></div></t>'', ''<l>C</l>'', Map.empty) \<and>
   assemble ''sidebar'' demo_session demo_templates False demo_sections =
     Inr (''<t><p>one</p></t><t><div></div></t><t><p>two</p></t>'',
          ''<l>B</l><l>C</l><l>D</l>'',
          [''a1'' \<mapsto> \<lparr>target = Some ''t1''\<rparr>, ''a2'' \<mapsto> \<lparr>target = None\<rparr>]) \<and>
   assemble ''sidebar'' demo_session demo_templates False demo_guide =
     Inr (''<s><t><p>one</p></t><t><div></div></t></s><t><p>two</p></t>'',
          ''<u><l>B</l><l>C</l></u><l>D</l>'',
          [''a1'' \<mapsto> \<lparr>target = Some ''t1''\<rparr>, ''a2'' \<mapsto> \<lparr>target = None\<rparr>]) \<and>
   build_dom ''sidebar'' demo_session demo_templates True (Topic ''n3'' ''C'' ''gone'' []) 1 =
     Inl (SystemExit 1) \<and>
   (\<exists>e. assemble ''sidebar'' demo_session demo_templates True demo_guide = Inl e)"
  using not_found_leaf_policy [where lnk = "''gone''" and session = demo_session
      and tp = "''sidebar''" and tpl = demo_templates and nid = "''n3''" and lbl = "''C''"
      and level = 1 and ug_json = demo_guide and pre = "[]" and post = "[]"
      and us = "[]" and vs = "[]"]
    not_found_leaf_policy [where lnk = "''gone''" and session = demo_session
      and tp = "''sidebar''" and tpl = demo_templates and nid = "''n3''" and lbl = "''C''"
      and level = 0 and ug_json = demo_guide
      and pre = "[Topic ''n2'' ''B'' ''k1'' []]" and post = "[Topic ''n4'' ''D'' ''k2'' []]"
      and us = "[(''<t><p>one</p></t>'', ''<l>B</l>'', [''a1'' \<mapsto> \<lparr>target = Some ''t1''\<rparr>])]"
      and vs = "[(''<t><p>two</p></t>'', ''<l>D</l>'', [''a2'' \<mapsto> \<lparr>target = None\<rparr>])]"
      and b = "[]" and t = "[]" and h = Map.empty]
  by (simp add: assemble_def demo_session_def demo_templates_def demo_guide_def demo_sections_def
      leaf_content_def match_html_def token_def)

text \<open>
  C9. Unwrapping the body of a leaf is not total. When the fetch succeeds with a body
  that contains \<open></html>\<close> and does not start with \<open><html\<close>, the pattern does not
  match and \<open>build_dom\<close> raises \<open>AttributeError\<close> for that leaf, under either
  failure policy.
\<close>

theorem unwrap_not_total:
  assumes "contains bodyHtml ''</html>''" and "\<not> prefix ''<html'' bodyHtml"
    and "lnk \<noteq> []" and "session lnk = Ok bodyHtml linkState"
  shows "build_dom tp session tpl crash (Topic nid lbl lnk []) level = Inl AttributeError"
  using assms by (simp add: leaf_content_def match_html_def)

theorem unwrap_not_total_witness:
  "build_dom ''sidebar'' demo_session demo_templates False (Topic ''n5'' ''E'' ''k3'' []) 0 =
     Inl AttributeError"
  using unwrap_not_total [where bodyHtml = "''<p>three</p></html>''" and lnk = "''k3''"
      and session = demo_session and linkState = Map.empty]
  by (simp add: demo_session_def)

section \<open>Rewriting the links: properties\<close>

text \<open>
  C3. Outside the mode \<open>all\<close>, the pass over the fragment links gives every anchor
  whose \<open>href\<close> starts with \<open>#\<close> the \<open>href\<close> \<open>#\<close> and a \<open>data-goto\<close>
  attribute holding the old \<open>href\<close> without its leading \<open>#\<close>, and changes no other
  element; in the mode \<open>all\<close> it leaves the whole document as it is.
\<close>

theorem fragment_link_rewrite:
  "(extend_mode = ''all'' \<longrightarrow> fragment_pass extend_mode soup = soup) \<and>
   (extend_mode \<noteq> ''all'' \<longrightarrow>
      length (fragment_pass extend_mode soup) = length soup \<and>
      (\<forall>i < length soup.
         if is_fragment_link (soup ! i)
         then \<exists>frag. attrs (soup ! i) ''href'' = Some (AStr (CHR ''#'' # frag)) \<and>
                fragment_pass extend_mode soup ! i =
                (soup ! i)\<lparr>attrs := (attrs (soup ! i))
                   (''data-goto'' \<mapsto> AStr frag, ''href'' \<mapsto> AStr ''#'')\<rparr>
         else fragment_pass extend_mode soup ! i = soup ! i))"
  by (auto simp: fragment_pass_def is_fragment_link_def rewrite_fragment_def set_attr_def
      prefix_def split: option.splits attr_value.splits)

theorem fragment_link_rewrite_witness:
  "fragment_pass ''single'' [\<lparr>name = ''a'', attrs = [''href'' \<mapsto> AStr ''#fig1'']\<rparr>] ! 0 =
     \<lparr>name = ''a'', attrs = [''href'' \<mapsto> AStr ''#'', ''data-goto'' \<mapsto> AStr ''fig1'']\<rparr> \<and>
   fragment_pass ''all'' [\<lparr>name = ''a'', attrs = [''href'' \<mapsto> AStr ''#fig1'']\<rparr>] =
     [\<lparr>name = ''a'', attrs = [''href'' \<mapsto> AStr ''#fig1'']\<rparr>]"
  using fragment_link_rewrite
      [of "''single''" "[\<lparr>name = ''a'', attrs = [''href'' \<mapsto> AStr ''#fig1'']\<rparr>]"]
    fragment_link_rewrite
      [of "''all''" "[\<lparr>name = ''a'', attrs = [''href'' \<mapsto> AStr ''#fig1'']\<rparr>]"]
  by (auto simp: is_fragment_link_def)




lemma set_link_keeps:
  "attrs (fst (set_link nv m h a)) ''checked-link'' = attrs a ''checked-link''"
  "attrs (fst (set_link nv m h a)) ''data-facets'' = attrs a ''data-facets''"
  by (auto simp: set_link_def set_attr_def Let_def split: option.splits attr_value.splits)

















text \<open>
  C1. A cross-topic anchor whose id has no entry in the reference map: in the mode
  \<open>all\<close> the membership test guards the lookup, and the anchor is left with the
  \<open>href\<close> \<open>#\<close> and no \<open>data-goto\<close>; in the modes \<open>single\<close> and \<open>toggle\<close> the
  lookup is not guarded and raises \<open>KeyError\<close>.
\<close>

theorem missing_anchor_raises_outside_all:
  "snd (update_links null_value ''single'' Map.empty [link_a1]) = Some KeyError \<and>
   snd (update_links null_value ''toggle'' Map.empty [link_a1]) = Some KeyError \<and>
   snd (update_links null_value ''all'' Map.empty [link_a1]) = None \<and>
   map (\<lambda>a. (attrs a ''href'', attrs a ''data-goto''))
     (fst (update_links null_value ''all'' Map.empty [link_a1])) = [(Some (AStr ''#''), None)]"
  by (simp add: update_links_def fragment_pass_def is_fragment_link_def is_dynamic_link_def
      rewrite_dynamic_def set_link_def del_attr_def set_attr_def link_a1_def)

lemma rewrite_dynamic_KeyError:
  assumes "lacks_live_attr a"
  shows "snd (rewrite_dynamic nv m h a) =
         (case snd (set_link nv m h a) of Some e \<Rightarrow> Some e | None \<Rightarrow> Some KeyError)"
proof (cases "set_link nv m h a")
  case (Pair a2 r)
  have keep: "attrs a2 ''checked-link'' = attrs a ''checked-link''"
    "attrs a2 ''data-facets'' = attrs a ''data-facets''"
    using set_link_keeps [of nv m h a] Pair by simp_all
  show ?thesis
    using assms keep Pair
    by (cases r) (auto simp: rewrite_dynamic_def del_attr_def lacks_live_attr_def)
qed

lemma rewrite_dynamic_lacking:
  "lacks_live_attr a \<Longrightarrow> snd (rewrite_dynamic nv m h a) \<noteq> None"
  by (simp add: rewrite_dynamic_KeyError split: option.splits)

lemma rewrite_dynamic_deletes:
  "snd (rewrite_dynamic nv m h a) = None \<Longrightarrow>
   attrs (fst (rewrite_dynamic nv m h a)) ''checked-link'' = None \<and>
   attrs (fst (rewrite_dynamic nv m h a)) ''data-facets'' = None"
  by (auto simp: rewrite_dynamic_def del_attr_def split: option.splits prod.splits if_splits)

lemma dynamic_pass_lacking:
  "a \<in> set soup \<Longrightarrow> is_dynamic_link a \<Longrightarrow> lacks_live_attr a \<Longrightarrow>
   snd (dynamic_pass nv m h soup) \<noteq> None"
proof (induction soup)
  case Nil
  then show ?case by simp
next
  case (Cons b soup)
  show ?case
  proof (cases "b = a")
    case True
    with Cons.prems rewrite_dynamic_lacking [of a nv m h] show ?thesis
      by (auto split: prod.splits option.splits)
  next
    case False
    with Cons have "snd (dynamic_pass nv m h soup) \<noteq> None" by simp
    then show ?thesis by (auto split: prod.splits option.splits)
  qed
qed

lemma rewrite_fragment_keeps:
  "is_dynamic_link (rewrite_fragment a) = is_dynamic_link a"
  "lacks_live_attr (rewrite_fragment a) = lacks_live_attr a"
  by (auto simp: rewrite_fragment_def is_dynamic_link_def lacks_live_attr_def set_attr_def
      split: option.splits attr_value.splits)

lemma fragment_pass_keeps:
  assumes a: "a \<in> set soup" "is_dynamic_link a" "lacks_live_attr a"
  shows "\<exists>b \<in> set (fragment_pass m soup). is_dynamic_link b \<and> lacks_live_attr b"
proof -
  let ?f = "\<lambda>a. if is_fragment_link a then rewrite_fragment a else a"
  have "is_dynamic_link (?f a) \<and> lacks_live_attr (?f a)"
    using a by (simp add: rewrite_fragment_keeps)
  moreover have "?f a \<in> set (map ?f soup)"
    using a(1) by (rule imageI [of a "set soup" ?f, folded set_map])
  ultimately show ?thesis
    using a unfolding fragment_pass_def by (cases "m = ''all''") auto
qed

text \<open>
  C10. The pass over the cross-topic anchors needs both \<open>checked-link\<close> and
  \<open>data-facets\<close> on every such anchor. For an anchor lacking one of them, whatever the
  mode, the rewrite raises: the exception of the lookup if the lookup raised, and
  otherwise the \<open>KeyError\<close> of the deletion. A rewrite that raises nothing has removed
  both attributes. A document holding such an anchor makes the whole link update raise.
\<close>

theorem dynamic_link_needs_live_attrs:
  "(lacks_live_attr a \<longrightarrow>
      snd (rewrite_dynamic null_value extend_mode href_content a) =
        (case snd (set_link null_value extend_mode href_content a) of
           Some e \<Rightarrow> Some e | None \<Rightarrow> Some KeyError)) \<and>
   (snd (rewrite_dynamic null_value extend_mode href_content a) = None \<longrightarrow>
      attrs (fst (rewrite_dynamic null_value extend_mode href_content a)) ''checked-link'' = None \<and>
      attrs (fst (rewrite_dynamic null_value extend_mode href_content a)) ''data-facets'' = None) \<and>
   (a \<in> set soup \<and> is_dynamic_link a \<and> lacks_live_attr a \<longrightarrow>
      snd (update_links null_value extend_mode href_content soup) \<noteq> None)"
proof -
  have "snd (update_links null_value extend_mode href_content soup) \<noteq> None"
    if "a \<in> set soup" "is_dynamic_link a" "lacks_live_attr a"
  proof -
    from fragment_pass_keeps [OF that] obtain b where
      "b \<in> set (fragment_pass extend_mode soup)" "is_dynamic_link b" "lacks_live_attr b"
      by blast
    then show ?thesis unfolding update_links_def by (rule dynamic_pass_lacking)
  qed
  then show ?thesis
    using rewrite_dynamic_KeyError [of a null_value extend_mode href_content]
      rewrite_dynamic_deletes [of null_value extend_mode href_content a] by blast
qed

theorem dynamic_link_needs_live_attrs_witness:
  "snd (rewrite_dynamic ANone ''all'' Map.empty
     \<lparr>name = ''a'', attrs = [''id'' \<mapsto> AStr ''a1'', ''class'' \<mapsto> AList [''dynamic-link''],
        ''checked-link'' \<mapsto> AStr ''true'']\<rparr>) = Some KeyError \<and>
   attrs (fst (rewrite_dynamic ANone ''all'' Map.empty link_a1)) ''checked-link'' = None \<and>
   attrs (fst (rewrite_dynamic ANone ''all'' Map.empty link_a1)) ''data-facets'' = None \<and>
   snd (update_links ANone ''all'' Map.empty
     [\<lparr>name = ''a'', attrs = [''id'' \<mapsto> AStr ''a1'', ''class'' \<mapsto> AList [''dynamic-link''],
        ''checked-link'' \<mapsto> AStr ''true'']\<rparr>]) \<noteq> None"
  using dynamic_link_needs_live_attrs [of
      "\<lparr>name = ''a'', attrs = [''id'' \<mapsto> AStr ''a1'', ''class'' \<mapsto> AList [''dynamic-link''],
        ''checked-link'' \<mapsto> AStr ''true'']\<rparr>" ANone "''all''" Map.empty
      "[\<lparr>name = ''a'', attrs = [''id'' \<mapsto> AStr ''a1'', ''class'' \<mapsto> AList [''dynamic-link''],
        ''checked-link'' \<mapsto> AStr ''true'']\<rparr>]"]
    dynamic_link_needs_live_attrs [of link_a1 ANone "''all''" Map.empty "[]"]
  by (simp add: lacks_live_attr_def is_dynamic_link_def set_link_def set_attr_def
      rewrite_dynamic_def del_attr_def link_a1_def)

section \<open>The resources of the style sheets: properties\<close>

lemma rsplit_head_last:
  "c \<notin> set f \<Longrightarrow> rsplit_head c (p @ c # f) = p"
proof -
  assume c: "c \<notin> set f"
  then have "dropWhile (\<lambda>x. x \<noteq> c) (rev f @ c # rev p) = c # rev p"
    by (auto simp: dropWhile_append3)
  then show ?thesis by (simp add: rsplit_head_def)
qed

lemma rsplit_head_none: "c \<notin> set s \<Longrightarrow> rsplit_head c s = s"
  by (simp add: rsplit_head_def)

lemma normalize_cases:
  "CHR ''#'' \<notin> set f \<Longrightarrow> CHR ''?'' \<notin> set q \<Longrightarrow> normalize_ref (p @ ''?'' @ q @ ''#'' @ f) = p"
  "CHR ''#'' \<notin> set f \<Longrightarrow> CHR ''?'' \<notin> set p \<Longrightarrow> normalize_ref (p @ ''#'' @ f) = p"
  "CHR ''?'' \<notin> set q \<Longrightarrow> CHR ''#'' \<notin> set p \<Longrightarrow> CHR ''#'' \<notin> set q \<Longrightarrow> normalize_ref (p @ ''?'' @ q) = p"
  "CHR ''#'' \<notin> set p \<Longrightarrow> CHR ''?'' \<notin> set p \<Longrightarrow> normalize_ref p = p"
proof -
  show "normalize_ref (p @ ''?'' @ q @ ''#'' @ f) = p" if "CHR ''#'' \<notin> set f" "CHR ''?'' \<notin> set q"
    using rsplit_head_last [of "CHR ''#''" f "p @ ''?'' @ q"] rsplit_head_last [of "CHR ''?''" q p] that
    by (simp add: normalize_ref_def)
  show "normalize_ref (p @ ''#'' @ f) = p" if "CHR ''#'' \<notin> set f" "CHR ''?'' \<notin> set p"
    using rsplit_head_last [of "CHR ''#''" f p] that
    by (simp add: normalize_ref_def rsplit_head_none)
  show "normalize_ref (p @ ''?'' @ q) = p" if "CHR ''?'' \<notin> set q" "CHR ''#'' \<notin> set p" "CHR ''#'' \<notin> set q"
    using rsplit_head_last [of "CHR ''?''" q p] that
    by (simp add: normalize_ref_def rsplit_head_none)
  show "normalize_ref p = p" if "CHR ''#'' \<notin> set p" "CHR ''?'' \<notin> set p"
    using that by (simp add: normalize_ref_def rsplit_head_none)
qed

lemma rsplit_head_decomp:
  assumes "c \<in> set s"
  shows "\<exists>t. s = rsplit_head c s @ c # t \<and> c \<notin> set t"
proof -
  from split_list_last [OF assms] obtain ys zs where s: "s = ys @ c # zs" "c \<notin> set zs"
    by blast
  then have "rsplit_head c s = ys" by (simp add: rsplit_head_last)
  with s show ?thesis by auto
qed

lemma normalize_decomp:
  "\<exists>q f. rel = normalize_ref rel @ q @ f \<and>
     (if CHR ''#'' \<in> set rel then \<exists>f'. f = CHR ''#'' # f' \<and> CHR ''#'' \<notin> set f' else f = []) \<and>
     (if CHR ''?'' \<in> set (normalize_ref rel @ q)
      then \<exists>q'. q = CHR ''?'' # q' \<and> CHR ''?'' \<notin> set q' else q = [])"
proof -
  let ?r = "rsplit_head CHR ''#'' rel"
  obtain f where f: "rel = ?r @ f"
    "if CHR ''#'' \<in> set rel then \<exists>f'. f = CHR ''#'' # f' \<and> CHR ''#'' \<notin> set f' else f = []"
  proof (cases "CHR ''#'' \<in> set rel")
    case True
    from rsplit_head_decomp [OF True] obtain t where "rel = ?r @ CHR ''#'' # t" "CHR ''#'' \<notin> set t"
      by blast
    with True that [of "CHR ''#'' # t"] show ?thesis by simp
  next
    case False
    with that [of "[]"] show ?thesis by (simp add: rsplit_head_none)
  qed
  obtain q where q: "?r = normalize_ref rel @ q"
    "if CHR ''?'' \<in> set ?r then \<exists>q'. q = CHR ''?'' # q' \<and> CHR ''?'' \<notin> set q' else q = []"
  proof (cases "CHR ''?'' \<in> set ?r")
    case True
    from rsplit_head_decomp [OF True] obtain t where
      "?r = rsplit_head CHR ''?'' ?r @ CHR ''?'' # t" "CHR ''?'' \<notin> set t" by blast
    with True that [of "CHR ''?'' # t"] show ?thesis by (simp add: normalize_ref_def)
  next
    case False
    with that [of "[]"] show ?thesis by (simp add: normalize_ref_def rsplit_head_none)
  qed
  have "rel = normalize_ref rel @ q @ f" using f(1) q(1) by simp
  moreover have "set (normalize_ref rel @ q) = set ?r" using q(1) by simp
  ultimately show ?thesis using f(2) q(2) by metis
qed

lemma find_urls_skip: "CHR ''u'' \<notin> set pre \<Longrightarrow> find_urls (pre @ s) = find_urls s"
  by (induction pre) auto

lemma find_urls_head:
  assumes "body \<noteq> []" and "\<forall>c \<in> set body. not_paren c" and "CHR ''u'' \<notin> set pre"
  shows "find_urls (pre @ ''url('' @ body @ '')'' @ rest) = body # find_urls rest"
proof -
  have np: "\<not> not_paren CHR '')''" by (simp add: not_paren_def)
  have tw: "takeWhile not_paren (body @ CHR '')'' # rest) = body"
    using assms(2) np by (simp add: takeWhile_tail)
  have dw: "dropWhile not_paren (body @ CHR '')'' # rest) = CHR '')'' # rest"
    using assms(2) np by (simp add: dropWhile_append3)
  have "find_urls (''url('' @ body @ '')'' @ rest) = body # find_urls rest"
    using assms(1) tw dw by simp
  then show ?thesis using find_urls_skip [OF assms(3)] by simp
qed

lemma scan_refs_keys:
  "fst ` set (scan_refs dir rels res) =
   fst ` set res \<union> normalize_ref ` {rel \<in> set rels. \<not> prefix ''data:'' rel}"
proof (induction rels arbitrary: res)
  case Nil
  then show ?case by simp
next
  case (Cons rel rels)
  show ?case
    by (cases "prefix ''data:'' rel") (auto simp: Cons css_entry_def dom_update image_iff)
qed

lemma scan_refs_stable:
  "map_of res k = Some (dir @ ''/'' @ k) \<Longrightarrow>
   map_of (scan_refs dir rels res) k = Some (dir @ ''/'' @ k)"
proof (induction rels arbitrary: res)
  case Nil
  then show ?case by simp
next
  case (Cons rel rels)
  show ?case
    by (cases "prefix ''data:'' rel") (auto simp: Cons css_entry_def update_conv' intro!: Cons.IH)
qed

lemma scan_refs_value:
  "rel \<in> set rels \<Longrightarrow> \<not> prefix ''data:'' rel \<Longrightarrow>
   map_of (scan_refs dir rels res) (normalize_ref rel) = Some (dir @ ''/'' @ normalize_ref rel)"
proof (induction rels arbitrary: res)
  case Nil
  then show ?case by simp
next
  case (Cons r rels)
  show ?case
  proof (cases "r = rel")
    case True
    then show ?thesis
      using Cons.prems(2) by (simp add: css_entry_def scan_refs_stable update_conv')
  next
    case False
    then show ?thesis using Cons by simp
  qed
qed

text \<open>
  C7. A reference loses the suffix that starts at its last \<open>#\<close> and then the suffix
  that starts at its last \<open>?\<close>: every reference is its normalized form followed by
  at most one suffix opened by \<open>?\<close> and at most one opened by \<open>#\<close>, and a path
  followed by a query, a fragment or both is cut back to the path. A \<open>url(...)\<close> group with a non-empty body free of parentheses
  is found with that body, and the search goes on after it. For every reference found
  in a style sheet that does not start with \<open>data:\<close>, the manifest maps the
  normalized reference, as the local path, to the directory of the style sheet joined
  with it by \<open>/\<close>; and the manifest gets no other key, so a \<open>data:\<close> reference
  adds none.
\<close>

theorem css_reference_manifest:
  "(\<exists>q f. rel = normalize_ref rel @ q @ f \<and>
      (if CHR ''#'' \<in> set rel then \<exists>f'. f = CHR ''#'' # f' \<and> CHR ''#'' \<notin> set f' else f = []) \<and>
      (if CHR ''?'' \<in> set (normalize_ref rel @ q)
       then \<exists>q'. q = CHR ''?'' # q' \<and> CHR ''?'' \<notin> set q' else q = [])) \<and>
   (CHR ''#'' \<notin> set f \<and> CHR ''?'' \<notin> set q \<longrightarrow> normalize_ref (p @ ''?'' @ q @ ''#'' @ f) = p) \<and>
   (CHR ''#'' \<notin> set f \<and> CHR ''?'' \<notin> set p \<longrightarrow> normalize_ref (p @ ''#'' @ f) = p) \<and>
   (CHR ''?'' \<notin> set q \<and> CHR ''#'' \<notin> set p \<and> CHR ''#'' \<notin> set q \<longrightarrow>
      normalize_ref (p @ ''?'' @ q) = p) \<and>
   (CHR ''#'' \<notin> set p \<and> CHR ''?'' \<notin> set p \<longrightarrow> normalize_ref p = p) \<and>
   (body \<noteq> [] \<and> (\<forall>c \<in> set body. not_paren c) \<and> CHR ''u'' \<notin> set pre \<longrightarrow>
      find_urls (pre @ ''url('' @ body @ '')'' @ rest) = body # find_urls rest) \<and>
   (rel \<in> set (find_urls css_text) \<and> \<not> prefix ''data:'' rel \<longrightarrow>
      map_of (scan_stylesheet href css_text css_resources) (normalize_ref rel) =
        Some (rsplit_head CHR ''/'' (''https://userguide.volkswagen.de'' @ href) @ ''/'' @
              normalize_ref rel)) \<and>
   fst ` set (scan_stylesheet href css_text css_resources) =
     fst ` set css_resources \<union>
     normalize_ref ` {rel \<in> set (find_urls css_text). \<not> prefix ''data:'' rel}"
  using normalize_decomp [of rel] normalize_cases find_urls_head [of body pre rest]
    scan_refs_value [of rel "find_urls css_text"
      "rsplit_head CHR ''/'' (''https://userguide.volkswagen.de'' @ href)" css_resources]
    scan_refs_keys [of "rsplit_head CHR ''/'' (''https://userguide.volkswagen.de'' @ href)"
      "find_urls css_text" css_resources]
  unfolding scan_stylesheet_def by blast

theorem css_reference_manifest_witness:
  "normalize_ref ''icons/x.png?v=2'' = ''icons/x.png'' \<and>
   find_urls ''a{b:url(icons/x.png?v=2)}'' = [''icons/x.png?v=2''] \<and>
   scan_stylesheet ''/css/main.css''
     ''a{background:url(icons/x.png?v=2)} b{background:url(data:image/png;base64,AAAA)}'' [] =
     [(''icons/x.png'', ''https://userguide.volkswagen.de/css/icons/x.png'')]"
  using css_reference_manifest [where p = "''icons/x.png''" and q = "''v=2''" and f = "[]"
      and body = "''icons/x.png?v=2''" and pre = "''a{b:''" and rest = "''}''"
      and rel = "''icons/x.png?v=2''"
      and css_text = "''a{background:url(icons/x.png?v=2)} b{background:url(data:image/png;base64,AAAA)}''"
      and css_resources = "[]" and href = "''/css/main.css''"]
  by (simp add: scan_stylesheet_def css_entry_def normalize_ref_def rsplit_head_def not_paren_def)

section \<open>Downloading the resources: properties\<close>

lemma extends_refl: "extends remote w (w, r)"
  by (auto simp: extends_def)

lemma extends_step:
  "extends remote w (w1, None) \<Longrightarrow> extends remote w1 (w2, r) \<Longrightarrow> extends remote w (w2, r)"
  unfolding extends_def by fastforce

lemma fetch_missing_extends:
  "extends remote w (fetch_missing remote os_error url local_path w)"
  by (auto simp: extends_def fetch_missing_def download_file_def Let_def split: option.splits)


lemma css_loop_extends: "extends remote w (css_loop joinp remote os_error subfolder res w)"
proof (induction res arbitrary: w)
  case Nil
  then show ?case by (simp add: extends_refl)
next
  case (Cons e res)
  obtain rel_path url where e: "e = (rel_path, url)" by (cases e)
  obtain w1 r1 where f: "fetch_missing remote os_error url (joinp subfolder rel_path) w = (w1, r1)"
    by (cases "fetch_missing remote os_error url (joinp subfolder rel_path) w")
  have st: "extends remote w (w1, r1)"
    using fetch_missing_extends [of remote w os_error url "joinp subfolder rel_path"] f by simp
  show ?case
  proof (cases r1)
    case None
    obtain w2 r2 where c: "css_loop joinp remote os_error subfolder res w1 = (w2, r2)"
      by (cases "css_loop joinp remote os_error subfolder res w1")
    have "extends remote w (w2, r2)"
      using extends_step [of remote w w1 w2 r2] st None Cons [of w1] c by simp
    then show ?thesis by (simp add: e f None c)
  next
    case (Some err)
    then show ?thesis using st by (simp add: e f)
  qed
qed

lemma image_loop_extends:
  "extends remote w (snd (image_loop joinp remote os_error legacy_str subfolder soup w))"
proof (induction soup arbitrary: w)
  case Nil
  then show ?case by (simp add: extends_refl)
next
  case (Cons img soup)
  show ?case
  proof (cases "name img = ''img''")
    case False
    obtain s2 w2 r2 where l: "image_loop joinp remote os_error legacy_str subfolder soup w = (s2, w2, r2)"
      by (cases "image_loop joinp remote os_error legacy_str subfolder soup w")
    show ?thesis using Cons [of w] False l by simp
  next
    case True
    show ?thesis
    proof (cases "attrs img ''data-src''")
      case None
      then show ?thesis using True by (simp add: extends_refl)
    next
      case (Some v)
      show ?thesis
      proof (cases v)
        case (AStr src)
        let ?url = "if prefix ''https:'' src then src
                    else ''https://userguide.volkswagen.de'' @ legacy_str @ src"
        show ?thesis
        proof (cases "split_str ?url ''key=''")
          case Nil
          then show ?thesis using True Some AStr by (simp add: extends_refl Let_def)
        next
          case (Cons x xs)
          note outer = this
          show ?thesis
          proof (cases xs)
            case Nil
            then show ?thesis using True Some AStr outer by (simp add: extends_refl Let_def)
          next
            case (Cons filename ys)
            let ?p = "joinp (joinp subfolder ''img'') filename"
            obtain w1 r1 where f: "fetch_missing remote os_error ?url ?p w = (w1, r1)"
              by (cases "fetch_missing remote os_error ?url ?p w")
            have st: "extends remote w (w1, r1)"
              using fetch_missing_extends [of remote w os_error ?url ?p] f by simp
            show ?thesis
            proof (cases r1)
              case None
              obtain s2 w2 r2 where
                l: "image_loop joinp remote os_error legacy_str subfolder soup w1 = (s2, w2, r2)"
                by (cases "image_loop joinp remote os_error legacy_str subfolder soup w1")
              have "extends remote w (w2, r2)"
                using extends_step [of remote w w1 w2 r2] st None Cons.IH [of w1] l by simp
              then show ?thesis
                using True Some AStr outer Cons f None l by (simp add: Let_def)
            next
              case (Some err)
              then show ?thesis
                using True \<open>attrs img ''data-src'' = Some v\<close> AStr outer Cons f st
                by (simp add: Let_def)
            qed
          qed
        qed
      next
        case (AList x2)
        then show ?thesis using True Some by (simp add: extends_refl)
      next
        case ANone
        then show ?thesis using True Some by (simp add: extends_refl)
      qed
    qed
  qed
qed

lemma download_resources_extends:
  "extends remote w (snd (download_resources joinp remote os_error legacy_str subfolder soup css w))"
proof -
  obtain s1 w1 r1 where il: "image_loop joinp remote os_error legacy_str subfolder soup w = (s1, w1, r1)"
    by (cases "image_loop joinp remote os_error legacy_str subfolder soup w")
  have e1: "extends remote w (w1, r1)"
    using image_loop_extends [of remote w joinp os_error legacy_str subfolder soup] il by simp
  show ?thesis
  proof (cases r1)
    case None
    obtain w2 r2 where c: "css_loop joinp remote os_error subfolder css w1 = (w2, r2)"
      by (cases "css_loop joinp remote os_error subfolder css w1")
    have "extends remote w (w2, r2)"
      using extends_step [of remote w w1 w2 r2] e1 None css_loop_extends [of remote w1 joinp os_error subfolder css] c
      by simp
    then show ?thesis by (simp add: download_resources_def il None c)
  next
    case (Some e)
    then show ?thesis using e1 by (simp add: download_resources_def il)
  qed
qed

text \<open>
  C8. Whatever the two download loops do, and whether or not they raise: no file of the
  folder is lost, and every retrieval they make is for a local path that was not a file
  when they started, so an asset whose file exists is never retrieved. When they raise
  nothing, every retrieval the server answered has left its file, so that a second run
  over the folder they leave does not retrieve it again.
\<close>

theorem existing_assets_not_retrieved:
  assumes "download_resources joinp remote os_error legacy_str subfolder soup css_resources w =
           (soup', w', r)"
  shows "files w \<subseteq> files w' \<and>
         (\<forall>(u, p) \<in> set (retrieved w'). (u, p) \<in> set (retrieved w) \<or> p \<notin> files w) \<and>
         (r = None \<longrightarrow>
            (\<forall>(u, p) \<in> set (retrieved w'). (u, p) \<in> set (retrieved w) \<or> (remote u \<longrightarrow> p \<in> files w')))"
  using download_resources_extends [of remote w joinp os_error legacy_str subfolder soup css_resources]
    assms by (simp add: extends_def)

theorem existing_assets_not_retrieved_witness:
  "retrieved (fst (snd (download_resources (\<lambda>a b. a @ ''/'' @ b) (\<lambda>u. True) (\<lambda>fs p. None) []
       ''out'' demo_page
       [(''icons/x.png'', ''https://userguide.volkswagen.de/css/icons/x.png'')] demo_folder))) =
     [(''https://cdn/x?key=pic2'', ''out/img/pic2''),
      (''https://userguide.volkswagen.de/css/icons/x.png'', ''out/icons/x.png'')] \<and>
   files (fst (snd (download_resources (\<lambda>a b. a @ ''/'' @ b) (\<lambda>u. True) (\<lambda>fs p. None) []
       ''out'' demo_page
       [(''icons/x.png'', ''https://userguide.volkswagen.de/css/icons/x.png'')] demo_folder))) =
     {''out/img/pic1'', ''out/img/pic2'', ''out/icons/x.png''} \<and>
   retrieved (fst (snd (download_resources (\<lambda>a b. a @ ''/'' @ b) (\<lambda>u. True) (\<lambda>fs p. None) []
       ''out'' demo_page
       [(''icons/x.png'', ''https://userguide.volkswagen.de/css/icons/x.png'')]
       \<lparr>files = {''out/img/pic1'', ''out/img/pic2'', ''out/icons/x.png''}, retrieved = []\<rparr>))) = []"
proof -
  let ?run = "download_resources (\<lambda>a b. a @ ''/'' @ b) (\<lambda>u. True) (\<lambda>fs p. None) [] ''out''
       demo_page [(''icons/x.png'', ''https://userguide.volkswagen.de/css/icons/x.png'')]"
  have run: "?run demo_folder =
      (fst (?run demo_folder), fst (snd (?run demo_folder)), snd (snd (?run demo_folder)))"
    by simp
  have log: "retrieved (fst (snd (?run demo_folder))) =
     [(''https://cdn/x?key=pic2'', ''out/img/pic2''),
      (''https://userguide.volkswagen.de/css/icons/x.png'', ''out/icons/x.png'')]"
    by (simp add: download_resources_def demo_page_def demo_folder_def split_str_def
        fetch_missing_def download_file_def set_attr_def Let_def)
  have fs: "files (fst (snd (?run demo_folder))) =
     {''out/img/pic1'', ''out/img/pic2'', ''out/icons/x.png''}"
    by (auto simp: download_resources_def demo_page_def demo_folder_def split_str_def
        fetch_missing_def download_file_def set_attr_def Let_def)
  have again: "retrieved (fst (snd (?run
       \<lparr>files = {''out/img/pic1'', ''out/img/pic2'', ''out/icons/x.png''}, retrieved = []\<rparr>))) = []"
    by (simp add: download_resources_def demo_page_def split_str_def
        fetch_missing_def download_file_def set_attr_def Let_def)
  show ?thesis
    using existing_assets_not_retrieved [OF run] log fs again by blast
qed

end
